theory Spec2Isabelle
  imports Complex_Main
begin

section \<open>I-DT fixation detection on 3D gaze samples (fixation3d.py)\<close>

text \<open>
  The Python source works on floating point numbers. They are idealised here as
  \<^typ>\<open>real\<close>: comparisons, subtraction and means are exact, and there is no NaN.
  Every statement below is about this idealisation.
\<close>

subsection \<open>Data\<close>

text \<open>
  One row of the input data frame, with the seven columns that
  \<open>extract_fixations\<close> reads. The data frame is the list of its rows.
\<close>

record sample =
  timestamp :: real
  direction_x :: real
  direction_y :: real
  direction_z :: real
  origin_x :: real
  origin_y :: real
  origin_z :: real

text \<open>
  The dictionaries \<open>gaze_points_queue\<close> and \<open>fixation\<close>: five parallel lists under
  the keys \<open>timestamps\<close>, \<open>X\<close>, \<open>Y\<close>, \<open>Z\<close> and \<open>origin\<close>. An entry of \<open>origin\<close> is a row
  of the \<open>(N, 3)\<close> array \<open>gaze_origin\<close>.
\<close>

record gaze_points =
  timestamps :: "real list"
  X :: "real list"
  Y :: "real list"
  Z :: "real list"
  origin :: "(real \<times> real \<times> real) list"

text \<open>
  The returned data frame: its column names and its rows. A row is the Python
  list of eight numbers appended to \<open>fixations\<close>.
\<close>

record fixation_df =
  columns :: "string list"
  rows :: "real list list"

text \<open>
  What can go wrong in the Python: \<open>max\<close> and \<open>min\<close> of an empty list raise
  \<open>ValueError\<close>; indexing or popping an empty list, and \<open>origin[:, 0]\<close> on an empty
  array, raise \<open>IndexError\<close>. \<open>np.mean\<close> of an empty list does not raise but gives NaN
  with a warning; the reals have no NaN, so the model reports it as \<open>MeanOfEmpty\<close>.
\<close>

datatype py_error = ValueError | IndexError | MeanOfEmpty

definition bind_err :: "py_error + 'a \<Rightarrow> ('a \<Rightarrow> py_error + 'b) \<Rightarrow> py_error + 'b" where
  "bind_err m f = (case m of Inl e \<Rightarrow> Inl e | Inr v \<Rightarrow> f v)"

subsection \<open>Python and numpy primitives\<close>

definition py_max :: "real list \<Rightarrow> py_error + real" where
  "py_max xs = (case xs of [] \<Rightarrow> Inl ValueError | y # ys \<Rightarrow> Inr (fold max ys y))"

definition py_min :: "real list \<Rightarrow> py_error + real" where
  "py_min xs = (case xs of [] \<Rightarrow> Inl ValueError | y # ys \<Rightarrow> Inr (fold min ys y))"

definition py_first :: "'a list \<Rightarrow> py_error + 'a" where
  "py_first xs = (case xs of [] \<Rightarrow> Inl IndexError | y # ys \<Rightarrow> Inr y)"

definition py_last :: "'a list \<Rightarrow> py_error + 'a" where
  "py_last xs = (if xs = [] then Inl IndexError else Inr (last xs))"

text \<open>\<open>xs.pop()\<close>: the removed last element and the list that is left.\<close>

definition py_pop :: "'a list \<Rightarrow> py_error + ('a \<times> 'a list)" where
  "py_pop xs = (if xs = [] then Inl IndexError else Inr (last xs, butlast xs))"

text \<open>
  The slice \<open>xs[i:]\<close>: a negative start counts from the end and is clipped at the
  front of the list; a start beyond the end gives the empty list.
\<close>

definition py_slice_from :: "'a list \<Rightarrow> int \<Rightarrow> 'a list" where
  "py_slice_from xs i =
     (if i < 0 then drop (nat (max (int (length xs) + i) 0)) xs else drop (nat i) xs)"

definition np_mean :: "real list \<Rightarrow> py_error + real" where
  "np_mean xs = (if xs = [] then Inl MeanOfEmpty else Inr (sum_list xs / real (length xs)))"

text \<open>\<open>np.mean(origin[:, j])\<close> for the array \<open>origin = np.array(fixation["origin"])\<close>.\<close>

definition np_mean_column :: "('a \<Rightarrow> real) \<Rightarrow> 'a list \<Rightarrow> py_error + real" where
  "np_mean_column sel os = (if os = [] then Inl IndexError else np_mean (map sel os))"

subsection \<open>The dispersion test\<close>

definition axis_range :: "real list \<Rightarrow> py_error + real" where
  "axis_range xs = bind_err (py_max xs) (\<lambda>hi. bind_err (py_min xs) (\<lambda>lo. Inr (hi - lo)))"

definition is_fixation_idt :: "gaze_points \<Rightarrow> real \<Rightarrow> py_error + bool" where
  "is_fixation_idt gaze_points fixation_size =
     bind_err (axis_range (X gaze_points)) (\<lambda>rx.
     bind_err (axis_range (Y gaze_points)) (\<lambda>ry.
     bind_err (axis_range (Z gaze_points)) (\<lambda>rz.
     bind_err (py_max [rx, ry, rz]) (\<lambda>extent.
       if extent < fixation_size then Inr True else Inr False))))"

subsection \<open>The segmenter\<close>

text \<open>The local variables of \<open>extract_fixations\<close> that the loop updates.\<close>

record seg_state =
  gaze_points_queue :: gaze_points
  fixation :: gaze_points
  fixations :: "real list list"
  processing_fixation :: bool

definition empty_points :: gaze_points where
  "empty_points = \<lparr>timestamps = [], X = [], Y = [], Z = [], origin = []\<rparr>"

definition init_state :: seg_state where
  "init_state = \<lparr>gaze_points_queue = empty_points, fixation = empty_points,
     fixations = [], processing_fixation = False\<rparr>"

text \<open>The five \<open>append\<close> calls of lines 44-48 and 64-68, for the row \<open>s\<close> of index \<open>i\<close>.\<close>

definition append_point :: "gaze_points \<Rightarrow> sample \<Rightarrow> gaze_points" where
  "append_point g s =
     \<lparr>timestamps = timestamps g @ [timestamp s],
      X = X g @ [direction_x s],
      Y = Y g @ [direction_y s],
      Z = Z g @ [direction_z s],
      origin = origin g @ [(origin_x s, origin_y s, origin_z s)]\<rparr>"

text \<open>Lines 52-55: every list of the queue is cut to \<open>[-min_points_per_fixation:]\<close>.\<close>

definition keep_newest :: "gaze_points \<Rightarrow> int \<Rightarrow> gaze_points" where
  "keep_newest g n =
     \<lparr>timestamps = py_slice_from (timestamps g) (- n),
      X = py_slice_from (X g) (- n),
      Y = py_slice_from (Y g) (- n),
      Z = py_slice_from (Z g) (- n),
      origin = py_slice_from (origin g) (- n)\<rparr>"

text \<open>
  Lines 72-80: the last entry of every list of the fixation is popped and appended
  to a fresh queue. The result is the new queue and the fixation that is left.
\<close>

definition pop_outlier :: "gaze_points \<Rightarrow> py_error + (gaze_points \<times> gaze_points)" where
  "pop_outlier f =
     bind_err (py_pop (timestamps f)) (\<lambda>(t, ts).
     bind_err (py_pop (X f)) (\<lambda>(x, xs).
     bind_err (py_pop (Y f)) (\<lambda>(y, ys).
     bind_err (py_pop (Z f)) (\<lambda>(z, zs).
     bind_err (py_pop (origin f)) (\<lambda>(p, ps).
       Inr (\<lparr>timestamps = [t], X = [x], Y = [y], Z = [z], origin = [p]\<rparr>,
            \<lparr>timestamps = ts, X = xs, Y = ys, Z = zs, origin = ps\<rparr>))))))"

text \<open>Lines 83-103: the row that summarises a finished fixation.\<close>

definition save_fixation :: "gaze_points \<Rightarrow> py_error + real list" where
  "save_fixation f =
     bind_err (py_first (timestamps f)) (\<lambda>start_timestamp.
     bind_err (py_last (timestamps f)) (\<lambda>end_timestamp.
     bind_err (np_mean (X f)) (\<lambda>x.
     bind_err (np_mean (Y f)) (\<lambda>y.
     bind_err (np_mean (Z f)) (\<lambda>z.
     bind_err (np_mean_column fst (origin f)) (\<lambda>ox.
     bind_err (np_mean_column (\<lambda>p. fst (snd p)) (origin f)) (\<lambda>oy.
     bind_err (np_mean_column (\<lambda>p. snd (snd p)) (origin f)) (\<lambda>oz.
       Inr [start_timestamp, end_timestamp, x, y, z, ox, oy, oz]))))))))"

text \<open>
  One iteration of the loop of line 41 for the row \<open>s\<close>.

  Line 60 stores in \<open>fixation\<close> the very list objects of \<open>gaze_points_queue\<close>, and no
  entry of either dictionary is rebound while \<open>processing_fixation\<close> holds. So the
  appends of lines 64-68 are seen through both dictionaries, until line 72 binds
  \<open>gaze_points_queue\<close> to a fresh dictionary (and the \<open>pop\<close> of line 80 then shortens
  only the lists of \<open>fixation\<close>).
\<close>

definition step :: "int \<Rightarrow> real \<Rightarrow> real \<Rightarrow> seg_state \<Rightarrow> sample \<Rightarrow> py_error + seg_state" where
  "step min_points_per_fixation min_fixation_size max_fixation_size st s =
     (if \<not> processing_fixation st then
        let q = append_point (gaze_points_queue st) s in
        if int (length (timestamps q)) \<ge> min_points_per_fixation then
          let q' = keep_newest q min_points_per_fixation in
          bind_err (is_fixation_idt q' min_fixation_size) (\<lambda>ok.
            if ok then Inr (st\<lparr>gaze_points_queue := q', fixation := q',
                               processing_fixation := True\<rparr>)
            else Inr (st\<lparr>gaze_points_queue := q'\<rparr>))
        else Inr (st\<lparr>gaze_points_queue := q\<rparr>)
      else
        let f = append_point (fixation st) s;
            shared = append_point (gaze_points_queue st) s in
        bind_err (is_fixation_idt f max_fixation_size) (\<lambda>ok.
          if \<not> ok then
            bind_err (pop_outlier f) (\<lambda>(q, f').
            bind_err (save_fixation f') (\<lambda>row.
              Inr (st\<lparr>gaze_points_queue := q, fixation := empty_points,
                       fixations := fixations st @ [row],
                       processing_fixation := False\<rparr>)))
          else Inr (st\<lparr>gaze_points_queue := shared, fixation := f\<rparr>)))"

text \<open>The loop over the rows; an exception ends it.\<close>

fun run_loop :: "int \<Rightarrow> real \<Rightarrow> real \<Rightarrow> seg_state \<Rightarrow> sample list \<Rightarrow> py_error + seg_state" where
  "run_loop n lo hi st [] = Inr st"
| "run_loop n lo hi st (s # ss) =
     (case step n lo hi st s of Inl e \<Rightarrow> Inl e | Inr st' \<Rightarrow> run_loop n lo hi st' ss)"

definition extract_fixations :: "sample list \<Rightarrow> int \<Rightarrow> real \<Rightarrow> real \<Rightarrow> py_error + fixation_df" where
  "extract_fixations data min_points_per_fixation min_fixation_size max_fixation_size =
     bind_err (run_loop min_points_per_fixation min_fixation_size max_fixation_size
                 init_state data) (\<lambda>st.
       Inr \<lparr>columns = [''start'', ''end'', ''x'', ''y'', ''z'',
                        ''origin_x'', ''origin_y'', ''origin_z''],
            rows = fixations st\<rparr>)"

subsection \<open>Notions used to state the properties\<close>

text \<open>The five parallel lists that hold exactly the rows \<open>w\<close>, in order.\<close>

definition columns_of :: "sample list \<Rightarrow> gaze_points" where
  "columns_of w =
     \<lparr>timestamps = map timestamp w,
      X = map direction_x w,
      Y = map direction_y w,
      Z = map direction_z w,
      origin = map (\<lambda>s. (origin_x s, origin_y s, origin_z s)) w\<rparr>"

text \<open>The rows of index \<open>a \<le> i < b\<close>.\<close>

definition between :: "nat \<Rightarrow> nat \<Rightarrow> 'a list \<Rightarrow> 'a list" where
  "between a b xs = take (b - a) (drop a xs)"

text \<open>
  The row that summarises the rows \<open>w\<close>: the first and the last timestamp, and the
  arithmetic mean of each direction and origin component.
\<close>

definition window_row :: "sample list \<Rightarrow> real list" where
  "window_row w =
     [timestamp (hd w), timestamp (last w),
      sum_list (map direction_x w) / real (length w),
      sum_list (map direction_y w) / real (length w),
      sum_list (map direction_z w) / real (length w),
      sum_list (map origin_x w) / real (length w),
      sum_list (map origin_y w) / real (length w),
      sum_list (map origin_z w) / real (length w)]"

text \<open>The state of the loop after the first \<open>k\<close> rows.\<close>

definition state_after :: "int \<Rightarrow> real \<Rightarrow> real \<Rightarrow> sample list \<Rightarrow> nat \<Rightarrow> py_error + seg_state" where
  "state_after n lo hi data k = run_loop n lo hi init_state (take k data)"

text \<open>
  The invariant of the loop after \<open>k\<close> rows. The queue and, while a fixation is
  processed, the fixation hold the rows \<open>a \<le> i < k\<close>; \<open>ws\<close> lists the index ranges of the
  fixations saved so far, each of at least \<open>n\<close> rows, each followed by the row that made
  the dispersion test fail, in increasing order and before \<open>a\<close>.
\<close>

definition seg_inv :: "int \<Rightarrow> real \<Rightarrow> sample list \<Rightarrow> nat \<Rightarrow> seg_state \<Rightarrow> nat \<Rightarrow> (nat \<times> nat) list \<Rightarrow> bool" where
  "seg_inv n hi data k st a ws \<longleftrightarrow>
     a \<le> k \<and> k \<le> length data \<and>
     gaze_points_queue st = columns_of (between a k data) \<and>
     (if processing_fixation st
      then fixation st = columns_of (between a k data) \<and> n \<le> int (k - a)
      else fixation st = empty_points \<and> int (k - a) \<le> n) \<and>
     fixations st = map (\<lambda>(x, y). window_row (between x y data)) ws \<and>
     (\<forall>(x, y) \<in> set ws. int x + n \<le> int y \<and> y \<le> a \<and> y < k \<and>
        is_fixation_idt (columns_of (between x (Suc y) data)) hi = Inr False) \<and>
     sorted_wrt (\<lambda>p q. snd p \<le> fst q) ws"

text \<open>
  What holds after \<open>k\<close> rows for every value of \<open>min_points_per_fixation\<close>, as long as
  no error was raised: the same as above without the bounds on the number of rows, a
  fixation that is processed being not empty.
\<close>

definition seg_shape :: "real \<Rightarrow> sample list \<Rightarrow> nat \<Rightarrow> seg_state \<Rightarrow> nat \<Rightarrow> (nat \<times> nat) list \<Rightarrow> bool" where
  "seg_shape hi data k st a ws \<longleftrightarrow>
     a \<le> k \<and> k \<le> length data \<and>
     gaze_points_queue st = columns_of (between a k data) \<and>
     (if processing_fixation st
      then fixation st = columns_of (between a k data) \<and> a < k
      else fixation st = empty_points) \<and>
     fixations st = map (\<lambda>(x, y). window_row (between x y data)) ws \<and>
     (\<forall>(x, y) \<in> set ws. x < y \<and> y \<le> a \<and> y < k \<and>
        is_fixation_idt (columns_of (between x (Suc y) data)) hi = Inr False) \<and>
     sorted_wrt (\<lambda>p q. snd p \<le> fst q) ws"

text \<open>Example inputs: two clustered rows followed by an outlier, and the state after the first two.\<close>

definition gaze_row :: "real \<Rightarrow> real \<Rightarrow> sample" where
  "gaze_row t d = \<lparr>timestamp = t, direction_x = d, direction_y = d, direction_z = d,
     origin_x = 1, origin_y = 2, origin_z = 3\<rparr>"

definition scenario_two :: "sample list" where
  "scenario_two = [gaze_row 1 0, gaze_row 2 0, gaze_row 3 10]"

definition scenario_two_open :: seg_state where
  "scenario_two_open =
     \<lparr>gaze_points_queue = columns_of [gaze_row 1 0, gaze_row 2 0],
      fixation = columns_of [gaze_row 1 0, gaze_row 2 0],
      fixations = [], processing_fixation = True\<rparr>"

text \<open>
  Whether the iteration for row \<open>k\<close> ends a fixation: the loop reaches it without error
  while processing a fixation, and the dispersion test of line 70 fails.
\<close>

definition ends_fixation :: "int \<Rightarrow> real \<Rightarrow> real \<Rightarrow> sample list \<Rightarrow> nat \<Rightarrow> bool" where
  "ends_fixation n lo hi data k =
     (case state_after n lo hi data k of
        Inl e \<Rightarrow> False
      | Inr st \<Rightarrow> processing_fixation st \<and>
          is_fixation_idt (append_point (fixation st) (data ! k)) hi = Inr False)"

text \<open>
  More example inputs: two fixations, each ended by an outlier; a fixation still open at
  the end of the input; rows that never cluster. And the state after the first row of
  \<open>scenario_two\<close>.
\<close>

definition two_fixations :: "sample list" where
  "two_fixations = [gaze_row 1 0, gaze_row 2 0, gaze_row 3 10, gaze_row 4 10, gaze_row 5 10,
     gaze_row 6 0]"

definition trailing_open :: "sample list" where
  "trailing_open = [gaze_row 1 0, gaze_row 2 0, gaze_row 3 10, gaze_row 4 10, gaze_row 5 10]"

definition scattered :: "sample list" where
  "scattered = [gaze_row 1 0, gaze_row 2 10, gaze_row 3 0]"


subsection \<open>The primitives on well-formed arguments\<close>

lemma bind_err_simps [simp]:
  "bind_err (Inl e) f = Inl e" "bind_err (Inr v) f = f v"
  by (simp_all add: bind_err_def)

lemma py_max_Max: "xs \<noteq> [] \<Longrightarrow> py_max xs = Inr (Max (set xs))"
  by (cases xs) (simp_all add: py_max_def Max.set_eq_fold del: list.set set_simps)

lemma py_min_Min: "xs \<noteq> [] \<Longrightarrow> py_min xs = Inr (Min (set xs))"
  by (cases xs) (simp_all add: py_min_def Min.set_eq_fold del: list.set set_simps)

lemma axis_range_eq: "xs \<noteq> [] \<Longrightarrow> axis_range xs = Inr (Max (set xs) - Min (set xs))"
  by (simp add: axis_range_def py_max_Max py_min_Min)

lemma is_fixation_idt_eq:
  assumes "X g \<noteq> []" "Y g \<noteq> []" "Z g \<noteq> []"
  shows "is_fixation_idt g t =
     Inr (Max {Max (set (X g)) - Min (set (X g)),
               Max (set (Y g)) - Min (set (Y g)),
               Max (set (Z g)) - Min (set (Z g))} < t)"
  using assms by (simp add: is_fixation_idt_def axis_range_eq py_max_Max)

lemma is_fixation_idt_columns:
  "w \<noteq> [] \<Longrightarrow> \<exists>b. is_fixation_idt (columns_of w) t = Inr b"
  by (simp add: is_fixation_idt_eq columns_of_def)

lemma append_point_columns: "append_point (columns_of w) s = columns_of (w @ [s])"
  by (simp add: append_point_def columns_of_def)

lemma py_slice_from_neg: "1 \<le> n \<Longrightarrow> py_slice_from xs (- n) = drop (length xs - nat n) xs"
  by (auto simp add: py_slice_from_def max_def intro!: arg_cong2[where f=drop])

lemma keep_newest_columns:
  "1 \<le> n \<Longrightarrow> keep_newest (columns_of w) n = columns_of (drop (length w - nat n) w)"
  by (simp add: keep_newest_def columns_of_def py_slice_from_neg drop_map)

lemma pop_outlier_columns:
  "pop_outlier (columns_of (w @ [s])) = Inr (columns_of [s], columns_of w)"
  by (simp add: pop_outlier_def columns_of_def py_pop_def)

lemma save_fixation_columns:
  "w \<noteq> [] \<Longrightarrow> save_fixation (columns_of w) = Inr (window_row w)"
  by (cases w) (simp_all add: save_fixation_def columns_of_def py_first_def py_last_def np_mean_def
      np_mean_column_def window_row_def last_map comp_def)

lemma between_snoc: "a \<le> k \<Longrightarrow> k < length xs \<Longrightarrow> between a k xs @ [xs ! k] = between a (Suc k) xs"
  by (simp add: between_def Suc_diff_le take_Suc_conv_app_nth)

lemma length_between: "b \<le> length xs \<Longrightarrow> length (between a b xs) = b - a"
  by (simp add: between_def)

lemma drop_between: "b \<le> length xs \<Longrightarrow> drop m (between a b xs) = between (a + m) b xs"
  by (simp add: between_def drop_take add.commute)

subsection \<open>The loop, step by step\<close>

lemma run_loop_snoc:
  "run_loop n lo hi st (xs @ [x]) = bind_err (run_loop n lo hi st xs) (\<lambda>st'. step n lo hi st' x)"
  by (induction xs arbitrary: st) (simp_all add: bind_err_def split: sum.splits)

lemma state_after_0: "state_after n lo hi data 0 = Inr init_state"
  by (simp add: state_after_def)

lemma state_after_Suc:
  "k < length data \<Longrightarrow>
   state_after n lo hi data (Suc k) =
     bind_err (state_after n lo hi data k) (\<lambda>st. step n lo hi st (data ! k))"
  by (simp add: state_after_def take_Suc_conv_app_nth run_loop_snoc)

lemma state_after_all: "state_after n lo hi data (length data) = run_loop n lo hi init_state data"
  by (simp add: state_after_def)

lemma between_nonempty: "a < b \<Longrightarrow> b \<le> length xs \<Longrightarrow> between a b xs \<noteq> []"
  by (simp add: between_def)

lemma timestamps_columns [simp]: "timestamps (columns_of w) = map timestamp w"
  by (simp add: columns_of_def)

lemma is_fixation_idt_cases:
  "w \<noteq> [] \<Longrightarrow> is_fixation_idt (columns_of w) t = Inr True \<or> is_fixation_idt (columns_of w) t = Inr False"
  using is_fixation_idt_columns [of w t] by auto

lemma step_accumulating:
  assumes "1 \<le> n" and "\<not> processing_fixation st"
    and "gaze_points_queue st = columns_of (between a k data)"
    and "a \<le> k" and "k < length data"
  shows "step n lo hi st (data ! k) =
     (if int (Suc k - a) < n
      then Inr (st\<lparr>gaze_points_queue := columns_of (between a (Suc k) data)\<rparr>)
      else if is_fixation_idt (columns_of (between (Suc k - nat n) (Suc k) data)) lo = Inr True
      then Inr (st\<lparr>gaze_points_queue := columns_of (between (Suc k - nat n) (Suc k) data),
                     fixation := columns_of (between (Suc k - nat n) (Suc k) data),
                     processing_fixation := True\<rparr>)
      else Inr (st\<lparr>gaze_points_queue := columns_of (between (Suc k - nat n) (Suc k) data)\<rparr>))"
proof -
  let ?q = "between a (Suc k) data"
  have q: "append_point (gaze_points_queue st) (data ! k) = columns_of ?q"
    using assms by (simp add: append_point_columns between_snoc)
  have len: "length ?q = Suc k - a"
    using assms by (simp add: length_between)
  show ?thesis
  proof (cases "int (Suc k - a) < n")
    case True
    then show ?thesis
      using assms(2) q len by (simp add: step_def Let_def)
  next
    case False
    let ?w = "between (Suc k - nat n) (Suc k) data"
    have "length ?q - nat n + a = Suc k - nat n"
      using False assms(1,4) len by simp
    then have keep: "keep_newest (columns_of ?q) n = columns_of ?w"
      using assms(1,5) by (simp add: keep_newest_columns drop_between add.commute)
    have "?w \<noteq> []"
      using assms(1,5) False by (intro between_nonempty) auto
    then consider "is_fixation_idt (columns_of ?w) lo = Inr True"
      | "is_fixation_idt (columns_of ?w) lo = Inr False"
      using is_fixation_idt_cases by blast
    then show ?thesis
      using assms(2) q len False keep by cases (simp_all add: step_def Let_def)
  qed
qed

lemma step_fixating:
  assumes "processing_fixation st"
    and "fixation st = columns_of (between a k data)"
    and "gaze_points_queue st = columns_of (between a k data)"
    and "a < k" and "k < length data"
  shows "step n lo hi st (data ! k) =
     (if is_fixation_idt (columns_of (between a (Suc k) data)) hi = Inr True
      then Inr (st\<lparr>gaze_points_queue := columns_of (between a (Suc k) data),
                     fixation := columns_of (between a (Suc k) data)\<rparr>)
      else Inr (st\<lparr>gaze_points_queue := columns_of [data ! k],
                     fixation := empty_points,
                     fixations := fixations st @ [window_row (between a k data)],
                     processing_fixation := False\<rparr>))"
proof -
  let ?w = "between a k data"
  have f: "append_point (fixation st) (data ! k) = columns_of (?w @ [data ! k])"
    and q: "append_point (gaze_points_queue st) (data ! k) = columns_of (?w @ [data ! k])"
    using assms by (simp_all add: append_point_columns)
  have snoc: "?w @ [data ! k] = between a (Suc k) data"
    using assms by (simp add: between_snoc)
  have ne: "?w \<noteq> []"
    using assms by (intro between_nonempty) auto
  consider "is_fixation_idt (columns_of (?w @ [data ! k])) hi = Inr True"
    | "is_fixation_idt (columns_of (?w @ [data ! k])) hi = Inr False"
    using is_fixation_idt_cases [of "?w @ [data ! k]"] by blast
  then show ?thesis
  proof cases
    case 1
    then show ?thesis
      using assms(1) f q snoc by (simp add: step_def Let_def)
  next
    case 2
    then show ?thesis
      using assms(1) f q ne snoc [symmetric]
      by (simp add: step_def Let_def pop_outlier_columns save_fixation_columns)
  qed
qed

lemma between_single: "k < length xs \<Longrightarrow> between k (Suc k) xs = [xs ! k]"
  by (simp add: between_def take_Suc_conv_app_nth Cons_nth_drop_Suc [symmetric])

lemma seg_inv_step:
  assumes n: "1 \<le> n" and inv: "seg_inv n hi data k st a ws" and k: "k < length data"
  shows "\<exists>st' a' ws'. step n lo hi st (data ! k) = Inr st' \<and> seg_inv n hi data (Suc k) st' a' ws'"
proof (cases "processing_fixation st")
  case False
  from inv False have q: "gaze_points_queue st = columns_of (between a k data)"
    and ak: "a \<le> k"
    by (simp_all add: seg_inv_def)
  note st = step_accumulating [OF n False q ak k, of lo hi]
  show ?thesis
  proof (cases "int (Suc k - a) < n")
    case True
    then have "seg_inv n hi data (Suc k) (st\<lparr>gaze_points_queue := columns_of (between a (Suc k) data)\<rparr>) a ws"
      using inv False k by (auto simp add: seg_inv_def)
    then show ?thesis using st True by auto
  next
    case full: False
    let ?a = "Suc k - nat n"
    let ?c = "columns_of (between ?a (Suc k) data)"
    have a': "a \<le> ?a" "?a \<le> Suc k" "int (Suc k - ?a) = n"
      using full n ak by auto
    show ?thesis
    proof (cases "is_fixation_idt ?c lo = Inr True")
      case True
      have "seg_inv n hi data (Suc k)
          (st\<lparr>gaze_points_queue := ?c, fixation := ?c, processing_fixation := True\<rparr>) ?a ws"
        using inv k a' by (auto simp add: seg_inv_def)
      then show ?thesis using st full True by auto
    next
      case no: False
      have "seg_inv n hi data (Suc k) (st\<lparr>gaze_points_queue := ?c\<rparr>) ?a ws"
        using inv False k a' by (auto simp add: seg_inv_def)
      then show ?thesis using st full no by auto
    qed
  qed
next
  case True
  from inv True have q: "gaze_points_queue st = columns_of (between a k data)"
    and f: "fixation st = columns_of (between a k data)"
    and long: "n \<le> int (k - a)"
    by (auto simp add: seg_inv_def)
  from long n have ak: "a < k" by auto
  note st = step_fixating [OF True f q ak k, of n lo hi]
  let ?c = "columns_of (between a (Suc k) data)"
  show ?thesis
  proof (cases "is_fixation_idt ?c hi = Inr True")
    case ok: True
    have "seg_inv n hi data (Suc k) (st\<lparr>gaze_points_queue := ?c, fixation := ?c\<rparr>) a ws"
      using inv True k long ak by (auto simp add: seg_inv_def)
    then show ?thesis using st ok by auto
  next
    case no: False
    have "between a (Suc k) data \<noteq> []"
      using ak k by (intro between_nonempty) auto
    with no have fails: "is_fixation_idt ?c hi = Inr False"
      using is_fixation_idt_cases by blast
    let ?st = "st\<lparr>gaze_points_queue := columns_of [data ! k], fixation := empty_points,
        fixations := fixations st @ [window_row (between a k data)],
        processing_fixation := False\<rparr>"
    have "seg_inv n hi data (Suc k) ?st k (ws @ [(a, k)])"
      using inv True k long ak n fails
      by (auto simp add: seg_inv_def between_single sorted_wrt_append)
    then show ?thesis using st no by auto
  qed
qed

lemma seg_inv_init: "1 \<le> n \<Longrightarrow> seg_inv n hi data 0 init_state 0 []"
  by (simp add: seg_inv_def init_state_def between_def columns_of_def empty_points_def)

lemma state_after_inv:
  assumes "1 \<le> n" and "k \<le> length data"
  shows "\<exists>st a ws. state_after n lo hi data k = Inr st \<and> seg_inv n hi data k st a ws"
  using assms(2)
proof (induction k)
  case 0
  show ?case using seg_inv_init [OF assms(1)] by (auto simp add: state_after_0)
next
  case (Suc k)
  then obtain st a ws where st: "state_after n lo hi data k = Inr st"
    and inv: "seg_inv n hi data k st a ws"
    by auto
  from Suc.prems have k: "k < length data" by simp
  from seg_inv_step [OF assms(1) inv k, of lo] show ?case
    using st k by (simp add: state_after_Suc)
qed

lemma hd_between: "a < b \<Longrightarrow> b \<le> length xs \<Longrightarrow> hd (between a b xs) = xs ! a"
  by (simp add: between_def hd_drop_conv_nth)

lemma nth_between: "i < b - a \<Longrightarrow> b \<le> length xs \<Longrightarrow> between a b xs ! i = xs ! (a + i)"
  by (simp add: between_def)

lemma last_between:
  assumes "a < b" and "b \<le> length xs"
  shows "last (between a b xs) = xs ! (b - 1)"
proof -
  have "last (between a b xs) = between a b xs ! (b - a - 1)"
    using assms by (simp add: last_conv_nth between_nonempty length_between)
  also have "\<dots> = xs ! (a + (b - a - 1))"
    using assms by (intro nth_between) auto
  finally show ?thesis using assms by simp
qed

lemma extract_fixations_rows:
  "run_loop n lo hi init_state data = Inr st \<Longrightarrow>
   extract_fixations data n lo hi =
     Inr \<lparr>columns = [''start'', ''end'', ''x'', ''y'', ''z'',
                      ''origin_x'', ''origin_y'', ''origin_z''],
          rows = fixations st\<rparr>"
  by (simp add: extract_fixations_def)

lemma scenario_two_hyps:
  "state_after 2 (1/100) (2/100) scenario_two 2 = Inr scenario_two_open"
  "processing_fixation scenario_two_open"
  "is_fixation_idt (append_point (fixation scenario_two_open) (scenario_two ! 2)) (2/100) = Inr False"
  by code_simp+

lemma columns_sel [simp]:
  "X (columns_of w) = map direction_x w"
  "Y (columns_of w) = map direction_y w"
  "Z (columns_of w) = map direction_z w"
  "origin (columns_of w) = map (\<lambda>s. (origin_x s, origin_y s, origin_z s)) w"
  by (simp_all add: columns_of_def)

lemma final_inv:
  assumes "1 \<le> n"
  shows "\<exists>st a ws. run_loop n lo hi init_state data = Inr st \<and>
     seg_inv n hi data (length data) st a ws \<and>
     extract_fixations data n lo hi =
       Inr \<lparr>columns = [''start'', ''end'', ''x'', ''y'', ''z'',
                        ''origin_x'', ''origin_y'', ''origin_z''],
            rows = fixations st\<rparr>"
proof -
  from state_after_inv [where k = "length data" and data = data, OF assms order_refl, of lo hi]
  obtain st a ws where "run_loop n lo hi init_state data = Inr st"
    and "seg_inv n hi data (length data) st a ws"
    by (auto simp add: state_after_all)
  then show ?thesis
    using extract_fixations_rows by blast
qed

lemma test_arguments:
  assumes n: "1 \<le> n" and inv: "seg_inv n hi data k st a ws" and k: "k < length data"
  shows "processing_fixation st \<Longrightarrow>
       append_point (fixation st) (data ! k) = columns_of (between a (Suc k) data) \<and>
       n + 1 \<le> int (Suc k - a)"
    and "\<not> processing_fixation st \<Longrightarrow>
       append_point (gaze_points_queue st) (data ! k) = columns_of (between a (Suc k) data)"
    and "\<not> processing_fixation st \<Longrightarrow> n \<le> int (Suc k - a) \<Longrightarrow>
       nat n \<le> Suc k \<and>
       keep_newest (append_point (gaze_points_queue st) (data ! k)) n
         = columns_of (between (Suc k - nat n) (Suc k) data)"
proof -
  assume True: "processing_fixation st"
  with inv have "fixation st = columns_of (between a k data)" "n \<le> int (k - a)" "a \<le> k"
    by (auto simp add: seg_inv_def)
  then show "append_point (fixation st) (data ! k) = columns_of (between a (Suc k) data) \<and>
       n + 1 \<le> int (Suc k - a)"
    using k by (simp add: append_point_columns between_snoc)
next
  assume False: "\<not> processing_fixation st"
  with inv have q: "gaze_points_queue st = columns_of (between a k data)" and ak: "a \<le> k"
    by (auto simp add: seg_inv_def)
  show app: "append_point (gaze_points_queue st) (data ! k) = columns_of (between a (Suc k) data)"
    using q ak k by (simp add: append_point_columns between_snoc)
  assume full: "n \<le> int (Suc k - a)"
  have "length (between a (Suc k) data) - nat n + a = Suc k - nat n"
    using full n ak k by (simp add: length_between)
  then have "keep_newest (columns_of (between a (Suc k) data)) n
      = columns_of (between (Suc k - nat n) (Suc k) data)"
    using n k by (simp add: keep_newest_columns drop_between add.commute)
  then show "nat n \<le> Suc k \<and>
       keep_newest (append_point (gaze_points_queue st) (data ! k)) n
         = columns_of (between (Suc k - nat n) (Suc k) data)"
    using app full by auto
qed

lemma window_row_ends:
  assumes "x < y" and "y \<le> length data"
  shows "window_row (between x y data) ! 0 = timestamp (data ! x)"
    and "window_row (between x y data) ! Suc 0 = timestamp (data ! (y - 1))"
  using assms by (simp_all add: window_row_def hd_between last_between)

lemma window_growth:
  assumes n: "1 \<le> n" and inv: "seg_inv n hi data k st a ws" and k: "k < length data"
  shows "\<exists>st'. step n lo hi st (data ! k) = Inr st' \<and>
     (\<not> processing_fixation st \<and> processing_fixation st' \<longrightarrow>
        int (length (timestamps (fixation st'))) = n) \<and>
     (processing_fixation st \<and> processing_fixation st' \<longrightarrow>
        length (timestamps (fixation st')) = Suc (length (timestamps (fixation st))))"
proof (cases "processing_fixation st")
  case False
  from inv False have q: "gaze_points_queue st = columns_of (between a k data)"
    and ak: "a \<le> k"
    by (simp_all add: seg_inv_def)
  have "int (length (between (Suc k - nat n) (Suc k) data)) = n" if "\<not> int (Suc k - a) < n"
    using that n k by (simp add: length_between)
  then show ?thesis
    using False by (simp add: step_accumulating [OF n False q ak k])
next
  case True
  from inv True have q: "gaze_points_queue st = columns_of (between a k data)"
    and f: "fixation st = columns_of (between a k data)"
    and long: "n \<le> int (k - a)"
    by (auto simp add: seg_inv_def)
  from long n have ak: "a < k" by auto
  have "length (between a (Suc k) data) = Suc (length (between a k data))"
    using ak k by (simp add: length_between Suc_diff_le)
  then show ?thesis
    using True f by (simp add: step_fixating [OF True f q ak k])
qed

lemma never_started:
  assumes n: "1 \<le> n"
    and none: "\<forall>a. a + nat n \<le> length data \<longrightarrow>
       is_fixation_idt (columns_of (between a (a + nat n) data)) lo = Inr False"
    and k: "k \<le> length data"
  shows "\<exists>st a. state_after n lo hi data k = Inr st \<and> \<not> processing_fixation st \<and>
     fixations st = [] \<and> a \<le> k \<and> gaze_points_queue st = columns_of (between a k data)"
  using k
proof (induction k)
  case 0
  show ?case
    by (simp add: state_after_0 init_state_def between_def columns_of_def empty_points_def)
next
  case (Suc k)
  then obtain st a where st: "state_after n lo hi data k = Inr st"
    and acc: "\<not> processing_fixation st" and nil: "fixations st = []"
    and ak: "a \<le> k" and q: "gaze_points_queue st = columns_of (between a k data)"
    by auto
  from Suc.prems have k: "k < length data" by simp
  note step = step_accumulating [OF n acc q ak k, of lo hi]
  show ?case
  proof (cases "int (Suc k - a) < n")
    case True
    then show ?thesis
      using st k step acc nil ak by (auto simp add: state_after_Suc intro!: exI [of _ a])
  next
    case False
    then have le: "nat n \<le> Suc k" using n by auto
    then have "Suc k - nat n + nat n \<le> length data"
      using k by simp
    with none have "is_fixation_idt
        (columns_of (between (Suc k - nat n) (Suc k - nat n + nat n) data)) lo = Inr False"
      by blast
    then have "is_fixation_idt (columns_of (between (Suc k - nat n) (Suc k) data)) lo = Inr False"
      using le by simp
    then have "step n lo hi st (data ! k) =
        Inr (st\<lparr>gaze_points_queue := columns_of (between (Suc k - nat n) (Suc k) data)\<rparr>)"
      using step False by simp
    then show ?thesis
      using st k acc nil
      by (auto simp add: state_after_Suc intro!: exI [of _ "Suc k - nat n"])
  qed
qed


lemma is_fixation_idt_empty: "is_fixation_idt (columns_of []) t = Inl ValueError"
  by (simp add: is_fixation_idt_def axis_range_def py_max_def columns_of_def)

lemma py_slice_from_drop: "\<exists>m. py_slice_from xs i = drop m xs"
  by (auto simp add: py_slice_from_def)

lemma py_slice_from_map: "py_slice_from (map f xs) i = map f (py_slice_from xs i)"
  by (simp add: py_slice_from_def drop_map)

lemma keep_newest_slice: "keep_newest (columns_of w) n = columns_of (py_slice_from w (- n))"
  by (simp add: keep_newest_def columns_of_def py_slice_from_map)

lemma drop_between_clip:
  assumes "a \<le> b" and "b \<le> length xs"
  shows "\<exists>a'. a \<le> a' \<and> a' \<le> b \<and> drop m (between a b xs) = between a' b xs"
proof (cases "a + m \<le> b")
  case True
  then show ?thesis
    using assms by (intro exI [of _ "a + m"]) (simp add: drop_between)
next
  case False
  then have "drop m (between a b xs) = between b b xs"
    using assms by (simp add: between_def)
  then show ?thesis
    using assms by (intro exI [of _ b]) simp
qed

lemma keep_newest_between:
  assumes "a \<le> b" and "b \<le> length data"
  shows "\<exists>a'. a \<le> a' \<and> a' \<le> b \<and>
     keep_newest (columns_of (between a b data)) n = columns_of (between a' b data)"
proof -
  obtain m where "py_slice_from (between a b data) (- n) = drop m (between a b data)"
    using py_slice_from_drop by blast
  with drop_between_clip [OF assms, of m] show ?thesis
    by (auto simp add: keep_newest_slice)
qed

lemma seg_shape_step:
  assumes inv: "seg_shape hi data k st a ws" and k: "k < length data"
    and step: "step n lo hi st (data ! k) = Inr st'"
  shows "(\<exists>a' ws'. seg_shape hi data (Suc k) st' a' ws') \<and>
     (if processing_fixation st \<and>
         is_fixation_idt (append_point (fixation st) (data ! k)) hi = Inr False
      then a < k \<and> fixation st = columns_of (between a k data) \<and>
           fixations st' = fixations st @ [window_row (between a k data)] \<and>
           \<not> processing_fixation st' \<and>
           gaze_points_queue st' = columns_of [data ! k] \<and>
           fixation st' = empty_points
      else fixations st' = fixations st)"
proof (cases "processing_fixation st")
  case False
  from inv False have q: "gaze_points_queue st = columns_of (between a k data)"
    and ak: "a \<le> k"
    by (simp_all add: seg_shape_def)
  have app: "append_point (gaze_points_queue st) (data ! k) = columns_of (between a (Suc k) data)"
    using q ak k by (simp add: append_point_columns between_snoc)
  show ?thesis
  proof (cases "n \<le> int (length (timestamps (columns_of (between a (Suc k) data))))")
    case short: False
    then have st': "st' = st\<lparr>gaze_points_queue := columns_of (between a (Suc k) data)\<rparr>"
      using step False app by (simp add: step_def Let_def)
    have "seg_shape hi data (Suc k) st' a ws"
      unfolding st' using inv False k by (auto simp add: seg_shape_def)
    then show ?thesis using False st' by auto
  next
    case full: True
    from keep_newest_between [of a "Suc k" data n] ak k
    obtain a' where a': "a \<le> a'" "a' \<le> Suc k"
      and keep: "keep_newest (columns_of (between a (Suc k) data)) n
        = columns_of (between a' (Suc k) data)"
      by auto
    let ?c = "columns_of (between a' (Suc k) data)"
    from step False app full keep
    have run: "bind_err (is_fixation_idt ?c lo) (\<lambda>ok.
        if ok then Inr (st\<lparr>gaze_points_queue := ?c, fixation := ?c,
                           processing_fixation := True\<rparr>)
        else Inr (st\<lparr>gaze_points_queue := ?c\<rparr>)) = Inr st'"
      by (simp add: step_def Let_def)
    then obtain ok where ok: "is_fixation_idt ?c lo = Inr ok"
      by (cases "is_fixation_idt ?c lo") simp_all
    then have "between a' (Suc k) data \<noteq> []"
      using is_fixation_idt_empty [of lo] by auto
    then have lt: "a' < Suc k"
      using a' by (auto simp add: between_def)
    show ?thesis
    proof (cases ok)
      case True
      with run ok have st': "st' = st\<lparr>gaze_points_queue := ?c, fixation := ?c,
          processing_fixation := True\<rparr>"
        by simp
      have "seg_shape hi data (Suc k) st' a' ws"
        unfolding st' using inv k a' lt by (auto simp add: seg_shape_def)
      then show ?thesis using False st' by auto
    next
      case no: False
      with run ok have st': "st' = st\<lparr>gaze_points_queue := ?c\<rparr>"
        by simp
      have "seg_shape hi data (Suc k) st' a' ws"
        unfolding st' using inv False k a' by (auto simp add: seg_shape_def)
      then show ?thesis using False st' by auto
    qed
  qed
next
  case True
  from inv True have q: "gaze_points_queue st = columns_of (between a k data)"
    and f: "fixation st = columns_of (between a k data)"
    and ak: "a < k"
    by (auto simp add: seg_shape_def)
  note fx = step_fixating [OF True f q ak k, of n lo hi]
  have app: "append_point (fixation st) (data ! k) = columns_of (between a (Suc k) data)"
    using f ak k by (simp add: append_point_columns between_snoc)
  let ?c = "columns_of (between a (Suc k) data)"
  have "between a (Suc k) data \<noteq> []"
    using ak k by (intro between_nonempty) auto
  then consider "is_fixation_idt ?c hi = Inr True" | "is_fixation_idt ?c hi = Inr False"
    using is_fixation_idt_cases by blast
  then show ?thesis
  proof cases
    case 1
    with fx step have st': "st' = st\<lparr>gaze_points_queue := ?c, fixation := ?c\<rparr>"
      by simp
    have "seg_shape hi data (Suc k) st' a ws"
      unfolding st' using inv True k ak by (auto simp add: seg_shape_def)
    then show ?thesis using True st' app 1 by auto
  next
    case 2
    with fx step have st': "st' = st\<lparr>gaze_points_queue := columns_of [data ! k],
        fixation := empty_points,
        fixations := fixations st @ [window_row (between a k data)],
        processing_fixation := False\<rparr>"
      by simp
    have "seg_shape hi data (Suc k) st' k (ws @ [(a, k)])"
      unfolding st' using inv True k ak 2
      by (auto simp add: seg_shape_def between_single sorted_wrt_append)
    then show ?thesis using True st' app 2 f ak by auto
  qed
qed

lemma seg_shape_fixating_step:
  assumes inv: "seg_shape hi data k st a ws" and k: "k < length data"
    and p: "processing_fixation st"
  shows "\<exists>st'. step n lo hi st (data ! k) = Inr st'"
proof -
  from inv p have q: "gaze_points_queue st = columns_of (between a k data)"
    and f: "fixation st = columns_of (between a k data)"
    and ak: "a < k"
    by (auto simp add: seg_shape_def)
  show ?thesis
    by (simp add: step_fixating [OF p f q ak k])
qed

lemma state_after_Suc_Inr:
  assumes "k < length data" and "state_after n lo hi data (Suc k) = Inr st'"
  shows "\<exists>st. state_after n lo hi data k = Inr st \<and> step n lo hi st (data ! k) = Inr st'"
  using assms by (cases "state_after n lo hi data k") (simp_all add: state_after_Suc)

lemma state_after_shape:
  assumes "k \<le> length data" and "state_after n lo hi data k = Inr st"
  shows "\<exists>a ws. seg_shape hi data k st a ws"
  using assms
proof (induction k arbitrary: st)
  case 0
  then have "st = init_state" by (simp add: state_after_0)
  then have "seg_shape hi data 0 st 0 []"
    by (simp add: seg_shape_def init_state_def between_def columns_of_def empty_points_def)
  then show ?case by blast
next
  case (Suc k)
  from Suc.prems have k: "k < length data" by simp
  from state_after_Suc_Inr [OF k Suc.prems(2)]
  obtain s where s: "state_after n lo hi data k = Inr s"
    and step: "step n lo hi s (data ! k) = Inr st"
    by blast
  from Suc.IH [OF _ s] k obtain a ws where "seg_shape hi data k s a ws"
    by auto
  from seg_shape_step [OF this k step] show ?case
    by blast
qed


lemma extract_fixations_Inr:
  assumes "extract_fixations data n lo hi = Inr df"
  shows "\<exists>st. run_loop n lo hi init_state data = Inr st \<and> rows df = fixations st"
  using assms
  by (cases "run_loop n lo hi init_state data") (auto simp add: extract_fixations_def)

lemma final_shape:
  assumes "extract_fixations data n lo hi = Inr df"
  shows "\<exists>st a ws. state_after n lo hi data (length data) = Inr st \<and> rows df = fixations st \<and>
     seg_shape hi data (length data) st a ws"
proof -
  from extract_fixations_Inr [OF assms] obtain st
    where st: "state_after n lo hi data (length data) = Inr st" and "rows df = fixations st"
    by (auto simp add: state_after_all)
  with state_after_shape [OF order_refl st] show ?thesis
    by blast
qed

lemma rows_count_any:
  assumes "k \<le> length data" and "state_after n lo hi data k = Inr st"
  shows "length (fixations st) = length (filter (ends_fixation n lo hi data) [0..<k])"
  using assms
proof (induction k arbitrary: st)
  case 0
  then show ?case by (auto simp add: state_after_0 init_state_def)
next
  case (Suc k)
  from Suc.prems have k: "k < length data" by simp
  from state_after_Suc_Inr [OF k Suc.prems(2)]
  obtain s where s: "state_after n lo hi data k = Inr s"
    and step: "step n lo hi s (data ! k) = Inr st"
    by blast
  from Suc.IH [OF _ s] k
  have cnt: "length (fixations s) = length (filter (ends_fixation n lo hi data) [0..<k])"
    by simp
  from state_after_shape [OF _ s] k obtain a ws where "seg_shape hi data k s a ws"
    by auto
  from seg_shape_step [OF this k step]
  have fx: "if processing_fixation s \<and>
         is_fixation_idt (append_point (fixation s) (data ! k)) hi = Inr False
      then \<exists>r. fixations st = fixations s @ [r]
      else fixations st = fixations s"
    by (auto split: if_splits)
  have "ends_fixation n lo hi data k \<longleftrightarrow> processing_fixation s \<and>
      is_fixation_idt (append_point (fixation s) (data ! k)) hi = Inr False"
    using s by (simp add: ends_fixation_def)
  then show ?case
    using fx cnt by (auto split: if_splits)
qed

lemma two_fixations_result:
  "extract_fixations two_fixations 2 (1/100) (2/100) =
     Inr \<lparr>columns = [''start'', ''end'', ''x'', ''y'', ''z'',
                      ''origin_x'', ''origin_y'', ''origin_z''],
          rows = [[1, 2, 0, 0, 0, 1, 2, 3], [3, 5, 10, 10, 10, 1, 2, 3]]\<rparr>"
  by code_simp

lemma trailing_open_result:
  "extract_fixations trailing_open 2 (1/100) (2/100) =
     Inr \<lparr>columns = [''start'', ''end'', ''x'', ''y'', ''z'',
                      ''origin_x'', ''origin_y'', ''origin_z''],
          rows = [[1, 2, 0, 0, 0, 1, 2, 3]]\<rparr>"
  "length (filter (ends_fixation 2 (1/100) (2/100) trailing_open)
      [0..<length trailing_open]) = 1"
  "case run_loop 2 (1/100) (2/100) init_state trailing_open of
      Inl e \<Rightarrow> False
    | Inr st \<Rightarrow> processing_fixation st \<and> timestamps (fixation st) = [3, 4, 5]"
  by code_simp+

subsection \<open>The dispersion test\<close>



subsection \<open>Empty input\<close>

text \<open>
  C9. On a data frame without rows, \<open>extract_fixations\<close> returns, without an error, the
  data frame with the columns \<open>start\<close>, \<open>end\<close>, \<open>x\<close>, \<open>y\<close>, \<open>z\<close>, \<open>origin_x\<close>, \<open>origin_y\<close>,
  \<open>origin_z\<close> and no row, whatever the parameters are.
\<close>

theorem extract_fixations_no_samples:
  "extract_fixations [] n lo hi =
     Inr \<lparr>columns = [''start'', ''end'', ''x'', ''y'', ''z'',
                      ''origin_x'', ''origin_y'', ''origin_z''],
          rows = []\<rparr>"
  by (simp add: extract_fixations_def init_state_def)

subsection \<open>The end of a fixation\<close>



text \<open>
  C2. In the same situation the row \<open>k\<close> is popped from the fixation and is the only
  entry of the new queue, which so has length 1; the segmenter is no longer processing a
  fixation; and the saved record is computed from the fixation as it was before row \<open>k\<close>
  was appended, so the row is neither lost nor part of the record.
\<close>

theorem outlier_seeds_queue:
  assumes "k < length data"
    and "state_after n lo hi data k = Inr st"
    and "processing_fixation st"
    and "is_fixation_idt (append_point (fixation st) (data ! k)) hi = Inr False"
  shows "\<exists>st' row.
     state_after n lo hi data (Suc k) = Inr st' \<and>
     \<not> processing_fixation st' \<and>
     gaze_points_queue st' = columns_of [data ! k] \<and>
     length (timestamps (gaze_points_queue st')) = 1 \<and>
     pop_outlier (append_point (fixation st) (data ! k)) = Inr (gaze_points_queue st', fixation st) \<and>
     save_fixation (fixation st) = Inr row \<and>
     fixations st' = fixations st @ [row]"
proof -
  from assms(1) have kl: "k \<le> length data" by simp
  from state_after_shape [OF kl assms(2)]
  obtain a ws where shape: "seg_shape hi data k st a ws"
    by blast
  from seg_shape_fixating_step [OF shape assms(1,3), of n lo]
  obtain st' where step: "step n lo hi st (data ! k) = Inr st'"
    by blast
  then have st': "state_after n lo hi data (Suc k) = Inr st'"
    using assms(1,2) by (simp add: state_after_Suc)
  from seg_shape_step [OF shape assms(1) step] assms(3,4)
  have ak: "a < k" and f: "fixation st = columns_of (between a k data)"
    and fx: "fixations st' = fixations st @ [window_row (between a k data)]"
    and np: "\<not> processing_fixation st'"
    and q: "gaze_points_queue st' = columns_of [data ! k]"
    by simp_all
  have "between a k data \<noteq> []"
    using ak assms(1) by (intro between_nonempty) auto
  then have "save_fixation (fixation st) = Inr (window_row (between a k data))"
    using f by (simp add: save_fixation_columns)
  moreover have "pop_outlier (append_point (fixation st) (data ! k))
      = Inr (gaze_points_queue st', fixation st)"
    using f q by (simp add: append_point_columns pop_outlier_columns)
  ultimately show ?thesis
    using st' fx np q by simp
qed

theorem outlier_seeds_queue_witness:
  "2 < length scenario_two \<and>
   state_after 2 (1/100) (2/100) scenario_two 2 = Inr scenario_two_open \<and>
   processing_fixation scenario_two_open \<and>
   is_fixation_idt (append_point (fixation scenario_two_open) (scenario_two ! 2)) (2/100)
     = Inr False \<and>
   (\<exists>st'. state_after 2 (1/100) (2/100) scenario_two 3 = Inr st' \<and>
      \<not> processing_fixation st' \<and>
      gaze_points_queue st' = columns_of [gaze_row 3 10] \<and>
      length (timestamps (gaze_points_queue st')) = 1 \<and>
      fixations st' = [[1, 2, 0, 0, 0, 1, 2, 3]])"
proof -
  have k: "2 < length scenario_two" by (simp add: scenario_two_def)
  from outlier_seeds_queue [OF k scenario_two_hyps]
  obtain st' row where st': "state_after 2 (1/100) (2/100) scenario_two (Suc 2) = Inr st'"
    and np: "\<not> processing_fixation st'"
    and q: "gaze_points_queue st' = columns_of [scenario_two ! 2]"
    and row: "save_fixation (fixation scenario_two_open) = Inr row"
    and fx: "fixations st' = fixations scenario_two_open @ [row]"
    by blast
  have "save_fixation (fixation scenario_two_open) = Inr [1, 2, 0, 0, 0, 1, 2, 3]"
    by code_simp
  with row have "row = [1, 2, 0, 0, 0, 1, 2, 3]" by simp
  moreover have "Suc 2 = 3" by simp
  moreover have "scenario_two ! 2 = gaze_row 3 10" by (simp add: scenario_two_def)
  ultimately show ?thesis
    using k scenario_two_hyps st' np q fx by (simp add: scenario_two_open_def)
qed

subsection \<open>No error on valid parameters\<close>

text \<open>
  C7. With \<open>min_points_per_fixation \<ge> 1\<close>, for every input and all thresholds,
  \<open>extract_fixations\<close> returns a data frame and raises no error. Every iteration is reached
  without error, and where it calls the dispersion test the argument is not empty: the
  fixation with the new row has at least \<open>min_points_per_fixation + 1\<close> entries on each
  axis, the trimmed queue at least \<open>min_points_per_fixation\<close>, and the test returns a
  truth value.
\<close>

theorem extract_fixations_never_raises:
  assumes "1 \<le> n"
  shows "(\<exists>df. extract_fixations data n lo hi = Inr df) \<and>
     (\<forall>k<length data. \<exists>st. state_after n lo hi data k = Inr st \<and>
        (if processing_fixation st
         then n + 1 \<le> int (length (X (append_point (fixation st) (data ! k)))) \<and>
              n + 1 \<le> int (length (Y (append_point (fixation st) (data ! k)))) \<and>
              n + 1 \<le> int (length (Z (append_point (fixation st) (data ! k)))) \<and>
              (\<exists>b. is_fixation_idt (append_point (fixation st) (data ! k)) hi = Inr b)
         else n \<le> int (length (timestamps (append_point (gaze_points_queue st) (data ! k)))) \<longrightarrow>
              n \<le> int (length (X (keep_newest (append_point (gaze_points_queue st) (data ! k)) n))) \<and>
              n \<le> int (length (Y (keep_newest (append_point (gaze_points_queue st) (data ! k)) n))) \<and>
              n \<le> int (length (Z (keep_newest (append_point (gaze_points_queue st) (data ! k)) n))) \<and>
              (\<exists>b. is_fixation_idt
                 (keep_newest (append_point (gaze_points_queue st) (data ! k)) n) lo = Inr b)))"
proof (intro conjI allI impI)
  show "\<exists>df. extract_fixations data n lo hi = Inr df"
    using final_inv [OF assms, of lo hi data] by blast
next
  fix k assume k: "k < length data"
  then have "k \<le> length data" by simp
  from state_after_inv [OF assms this, of lo hi]
  obtain st a ws where st: "state_after n lo hi data k = Inr st"
    and inv: "seg_inv n hi data k st a ws"
    by blast
  note args = test_arguments [OF assms inv k]
  have "if processing_fixation st
     then n + 1 \<le> int (length (X (append_point (fixation st) (data ! k)))) \<and>
          n + 1 \<le> int (length (Y (append_point (fixation st) (data ! k)))) \<and>
          n + 1 \<le> int (length (Z (append_point (fixation st) (data ! k)))) \<and>
          (\<exists>b. is_fixation_idt (append_point (fixation st) (data ! k)) hi = Inr b)
     else n \<le> int (length (timestamps (append_point (gaze_points_queue st) (data ! k)))) \<longrightarrow>
          n \<le> int (length (X (keep_newest (append_point (gaze_points_queue st) (data ! k)) n))) \<and>
          n \<le> int (length (Y (keep_newest (append_point (gaze_points_queue st) (data ! k)) n))) \<and>
          n \<le> int (length (Z (keep_newest (append_point (gaze_points_queue st) (data ! k)) n))) \<and>
          (\<exists>b. is_fixation_idt
             (keep_newest (append_point (gaze_points_queue st) (data ! k)) n) lo = Inr b)"
  proof (cases "processing_fixation st")
    case True
    from args(1) [OF True]
    have app: "append_point (fixation st) (data ! k) = columns_of (between a (Suc k) data)"
      and long: "n + 1 \<le> int (Suc k - a)"
      by blast+
    from long assms have "between a (Suc k) data \<noteq> []"
      using k by (intro between_nonempty) auto
    then show ?thesis
      using True app long k is_fixation_idt_columns [of "between a (Suc k) data" hi]
      by (simp add: length_between)
  next
    case False
    note app = args(2) [OF False] and keep = args(3) [OF False]
    show ?thesis
    proof (cases "n \<le> int (Suc k - a)")
      case full: True
      from keep [OF full] assms have "between (Suc k - nat n) (Suc k) data \<noteq> []"
        using k by (intro between_nonempty) auto
      then show ?thesis
        using False app keep [OF full] k assms
          is_fixation_idt_columns [of "between (Suc k - nat n) (Suc k) data" lo]
        by (simp add: length_between)
    next
      case short: False
      then show ?thesis
        using False app k by (simp add: length_between)
    qed
  qed
  with st show "\<exists>st. state_after n lo hi data k = Inr st \<and>
        (if processing_fixation st
         then n + 1 \<le> int (length (X (append_point (fixation st) (data ! k)))) \<and>
              n + 1 \<le> int (length (Y (append_point (fixation st) (data ! k)))) \<and>
              n + 1 \<le> int (length (Z (append_point (fixation st) (data ! k)))) \<and>
              (\<exists>b. is_fixation_idt (append_point (fixation st) (data ! k)) hi = Inr b)
         else n \<le> int (length (timestamps (append_point (gaze_points_queue st) (data ! k)))) \<longrightarrow>
              n \<le> int (length (X (keep_newest (append_point (gaze_points_queue st) (data ! k)) n))) \<and>
              n \<le> int (length (Y (keep_newest (append_point (gaze_points_queue st) (data ! k)) n))) \<and>
              n \<le> int (length (Z (keep_newest (append_point (gaze_points_queue st) (data ! k)) n))) \<and>
              (\<exists>b. is_fixation_idt
                 (keep_newest (append_point (gaze_points_queue st) (data ! k)) n) lo = Inr b))"
    by blast
qed

theorem extract_fixations_never_raises_witness:
  "(1::int) \<le> 2 \<and> 2 < length scenario_two \<and>
   (\<exists>df. extract_fixations scenario_two 2 (1/100) (2/100) = Inr df) \<and>
   state_after 2 (1/100) (2/100) scenario_two 2 = Inr scenario_two_open \<and>
   processing_fixation scenario_two_open \<and>
   2 + 1 \<le> int (length (X (append_point (fixation scenario_two_open) (scenario_two ! 2)))) \<and>
   (\<exists>b. is_fixation_idt (append_point (fixation scenario_two_open) (scenario_two ! 2)) (2/100)
      = Inr b)"
proof -
  have n: "(1::int) \<le> 2" by simp
  have k: "2 < length scenario_two" by (simp add: scenario_two_def)
  note all = extract_fixations_never_raises [OF n, of scenario_two "1/100" "2/100"]
  from all have "\<exists>df. extract_fixations scenario_two 2 (1/100) (2/100) = Inr df"
    by blast
  moreover from all k obtain st where "state_after 2 (1/100) (2/100) scenario_two 2 = Inr st"
    and "if processing_fixation st
         then 2 + 1 \<le> int (length (X (append_point (fixation st) (scenario_two ! 2)))) \<and>
              2 + 1 \<le> int (length (Y (append_point (fixation st) (scenario_two ! 2)))) \<and>
              2 + 1 \<le> int (length (Z (append_point (fixation st) (scenario_two ! 2)))) \<and>
              (\<exists>b. is_fixation_idt (append_point (fixation st) (scenario_two ! 2)) (2/100) = Inr b)
         else 2 \<le> int (length (timestamps (append_point (gaze_points_queue st) (scenario_two ! 2)))) \<longrightarrow>
              2 \<le> int (length (X (keep_newest (append_point (gaze_points_queue st) (scenario_two ! 2)) 2))) \<and>
              2 \<le> int (length (Y (keep_newest (append_point (gaze_points_queue st) (scenario_two ! 2)) 2))) \<and>
              2 \<le> int (length (Z (keep_newest (append_point (gaze_points_queue st) (scenario_two ! 2)) 2))) \<and>
              (\<exists>b. is_fixation_idt
                 (keep_newest (append_point (gaze_points_queue st) (scenario_two ! 2)) 2) (1/100) = Inr b)"
    by blast
  ultimately show ?thesis
    using n k scenario_two_hyps(1,2) by auto
qed

subsection \<open>The cap of the queue\<close>



subsection \<open>The order of the records\<close>

text \<open>
  C6. With timestamps that do not decrease along the input, every record that
  \<open>extract_fixations\<close> returns has its start (entry 0) at most its end (entry 1), and the
  ends of the records do not decrease along the output. For
  \<open>min_points_per_fixation \<ge> 1\<close> it does return.
\<close>

theorem records_ordered:
  assumes "sorted (map timestamp data)"
  shows "(\<forall>df. extract_fixations data n lo hi = Inr df \<longrightarrow>
       (\<forall>r\<in>set (rows df). r ! 0 \<le> r ! 1) \<and> sorted (map (\<lambda>r. r ! 1) (rows df))) \<and>
     (1 \<le> n \<longrightarrow> (\<exists>df. extract_fixations data n lo hi = Inr df))"
proof (intro conjI allI impI)
  assume "1 \<le> n"
  then show "\<exists>df. extract_fixations data n lo hi = Inr df"
    using final_inv [of n lo hi data] by blast
next
  fix df assume df: "extract_fixations data n lo hi = Inr df"
  from final_shape [OF df] obtain st a ws where rdf: "rows df = fixations st"
    and inv: "seg_shape hi data (length data) st a ws"
    by blast
  from inv have rows: "fixations st = map (\<lambda>(x, y). window_row (between x y data)) ws"
    and range: "\<And>x y. (x, y) \<in> set ws \<Longrightarrow> x < y \<and> y < length data"
    and chain: "sorted_wrt (\<lambda>p q. snd p \<le> fst q) ws"
    by (auto simp add: seg_shape_def)
  have mono: "timestamp (data ! i) \<le> timestamp (data ! j)" if "i \<le> j" "j < length data" for i j
    using sorted_nth_mono [OF assms, of i j] that by simp
  have "r ! 0 \<le> r ! 1" if "r \<in> set (fixations st)" for r
  proof -
    from that rows obtain x y where xy: "(x, y) \<in> set ws"
      and r: "r = window_row (between x y data)"
      by auto
    from range [OF xy] show ?thesis
      unfolding r by (auto simp add: window_row_ends intro!: mono)
  qed
  then show "\<forall>r\<in>set (rows df). r ! 0 \<le> r ! 1"
    using rdf by simp
  have "sorted_wrt (\<lambda>p q. window_row (between (fst p) (snd p) data) ! 1
      \<le> window_row (between (fst q) (snd q) data) ! 1) ws"
  proof (rule sorted_wrt_mono_rel [OF _ chain])
    fix p q assume p: "p \<in> set ws" and q: "q \<in> set ws" and pq: "snd p \<le> fst q"
    from p range [of "fst p" "snd p"] have rp: "fst p < snd p \<and> snd p < length data"
      by simp
    from q range [of "fst q" "snd q"] have rq: "fst q < snd q \<and> snd q < length data"
      by simp
    from rp rq pq show "window_row (between (fst p) (snd p) data) ! 1
        \<le> window_row (between (fst q) (snd q) data) ! 1"
      by (auto simp add: window_row_ends intro!: mono)
  qed
  then show "sorted (map (\<lambda>r. r ! 1) (rows df))"
    unfolding rdf rows by (simp add: sorted_wrt_map case_prod_unfold comp_def)
qed

theorem records_ordered_witness:
  "sorted (map timestamp two_fixations) \<and> (1::int) \<le> 2 \<and>
   (\<exists>df. extract_fixations two_fixations 2 (1/100) (2/100) = Inr df \<and>
      rows df = [[1, 2, 0, 0, 0, 1, 2, 3], [3, 5, 10, 10, 10, 1, 2, 3]] \<and>
      (\<forall>r\<in>set (rows df). r ! 0 \<le> r ! 1) \<and>
      sorted (map (\<lambda>r. r ! 1) (rows df)))"
proof -
  have s: "sorted (map timestamp two_fixations)"
    by (simp add: two_fixations_def gaze_row_def)
  from records_ordered [OF s, of 2 "1/100" "2/100"] two_fixations_result
  show ?thesis
    using s by auto
qed

subsection \<open>The size of a saved fixation\<close>

text \<open>
  C10. With \<open>min_points_per_fixation \<ge> 1\<close>, every returned record is the summary of a
  range of at least \<open>min_points_per_fixation\<close> consecutive rows of the input. While a
  fixation is processed its window holds at least that many rows: it holds exactly
  \<open>min_points_per_fixation\<close> when the fixation starts and one more after each iteration
  that keeps it open.
\<close>

theorem emitted_window_size:
  assumes "1 \<le> n"
  shows "(\<exists>df ws. extract_fixations data n lo hi = Inr df \<and>
       rows df = map (\<lambda>(a, b). window_row (between a b data)) ws \<and>
       (\<forall>(a, b)\<in>set ws. b \<le> length data \<and> n \<le> int (length (between a b data)))) \<and>
     (\<forall>k\<le>length data. \<exists>st. state_after n lo hi data k = Inr st \<and>
       (processing_fixation st \<longrightarrow> n \<le> int (length (timestamps (fixation st))))) \<and>
     (\<forall>k<length data. \<exists>st st'. state_after n lo hi data k = Inr st \<and>
       state_after n lo hi data (Suc k) = Inr st' \<and>
       (\<not> processing_fixation st \<and> processing_fixation st' \<longrightarrow>
          int (length (timestamps (fixation st'))) = n) \<and>
       (processing_fixation st \<and> processing_fixation st' \<longrightarrow>
          length (timestamps (fixation st')) = Suc (length (timestamps (fixation st)))))"
proof (intro conjI allI impI)
  from final_inv [OF assms, of lo hi data]
  obtain st a ws where df: "extract_fixations data n lo hi =
       Inr \<lparr>columns = [''start'', ''end'', ''x'', ''y'', ''z'',
                        ''origin_x'', ''origin_y'', ''origin_z''],
            rows = fixations st\<rparr>"
    and inv: "seg_inv n hi data (length data) st a ws"
    by blast
  from inv have rows: "fixations st = map (\<lambda>(x, y). window_row (between x y data)) ws"
    and ws: "\<And>x y. (x, y) \<in> set ws \<Longrightarrow> int x + n \<le> int y \<and> y < length data"
    by (auto simp add: seg_inv_def)
  have "y \<le> length data \<and> n \<le> int (length (between x y data))" if "(x, y) \<in> set ws" for x y
    using ws [OF that] assms by (auto simp add: length_between)
  then show "\<exists>df ws. extract_fixations data n lo hi = Inr df \<and>
       rows df = map (\<lambda>(a, b). window_row (between a b data)) ws \<and>
       (\<forall>(a, b)\<in>set ws. b \<le> length data \<and> n \<le> int (length (between a b data)))"
    using df rows by auto
next
  fix k assume k: "k \<le> length data"
  from state_after_inv [OF assms k, of lo hi]
  obtain st a ws where st: "state_after n lo hi data k = Inr st"
    and inv: "seg_inv n hi data k st a ws"
    by blast
  have "n \<le> int (length (timestamps (fixation st)))" if "processing_fixation st"
    using inv that k by (auto simp add: seg_inv_def length_between)
  with st show "\<exists>st. state_after n lo hi data k = Inr st \<and>
       (processing_fixation st \<longrightarrow> n \<le> int (length (timestamps (fixation st))))"
    by blast
next
  fix k assume k: "k < length data"
  then have "k \<le> length data" by simp
  from state_after_inv [OF assms this, of lo hi]
  obtain st a ws where st: "state_after n lo hi data k = Inr st"
    and inv: "seg_inv n hi data k st a ws"
    by blast
  from window_growth [OF assms inv k, of lo] obtain st' where
    "step n lo hi st (data ! k) = Inr st'"
    and grow: "(\<not> processing_fixation st \<and> processing_fixation st' \<longrightarrow>
        int (length (timestamps (fixation st'))) = n) \<and>
     (processing_fixation st \<and> processing_fixation st' \<longrightarrow>
        length (timestamps (fixation st')) = Suc (length (timestamps (fixation st))))"
    by blast
  then have "state_after n lo hi data (Suc k) = Inr st'"
    using st k by (simp add: state_after_Suc)
  with st grow show "\<exists>st st'. state_after n lo hi data k = Inr st \<and>
       state_after n lo hi data (Suc k) = Inr st' \<and>
       (\<not> processing_fixation st \<and> processing_fixation st' \<longrightarrow>
          int (length (timestamps (fixation st'))) = n) \<and>
       (processing_fixation st \<and> processing_fixation st' \<longrightarrow>
          length (timestamps (fixation st')) = Suc (length (timestamps (fixation st))))"
    by blast
qed

theorem emitted_window_size_witness:
  "(1::int) \<le> 2 \<and>
   (\<exists>df ws. extract_fixations two_fixations 2 (1/100) (2/100) = Inr df \<and>
      rows df = map (\<lambda>(a, b). window_row (between a b two_fixations)) ws \<and>
      (\<forall>(a, b)\<in>set ws. b \<le> length two_fixations \<and>
         2 \<le> int (length (between a b two_fixations))))"
proof -
  have n: "(1::int) \<le> 2" by simp
  from emitted_window_size [OF n, of two_fixations "1/100" "2/100"] show ?thesis
    using n by blast
qed

subsection \<open>Inputs that never start a fixation\<close>

text \<open>
  C8. If the dispersion test against \<open>min_fixation_size\<close> fails on every window of
  \<open>min_points_per_fixation\<close> consecutive rows of the input, then \<open>extract_fixations\<close>
  returns, and returns no record, whatever the length of the input is. (The test has
  no result on an empty window, so the premise can only hold for
  \<open>min_points_per_fixation \<ge> 1\<close>.)
\<close>

theorem no_start_no_record:
  assumes "\<forall>a. a + nat n \<le> length data \<longrightarrow>
       is_fixation_idt (columns_of (between a (a + nat n) data)) lo = Inr False"
  shows "extract_fixations data n lo hi =
     Inr \<lparr>columns = [''start'', ''end'', ''x'', ''y'', ''z'',
                      ''origin_x'', ''origin_y'', ''origin_z''],
          rows = []\<rparr>"
proof -
  have n: "1 \<le> n"
  proof (rule ccontr)
    assume "\<not> 1 \<le> n"
    then have "nat n = 0" by simp
    with assms [rule_format, of 0]
    have "is_fixation_idt (columns_of (between 0 0 data)) lo = Inr False"
      by simp
    then show False
      by (simp add: between_def is_fixation_idt_empty)
  qed
  from never_started [OF n assms order_refl, of hi]
  obtain st where "run_loop n lo hi init_state data = Inr st" and "fixations st = []"
    by (auto simp add: state_after_all)
  then show ?thesis
    using extract_fixations_rows [of n lo hi data st] by simp
qed

theorem no_start_no_record_witness:
  "is_fixation_idt (columns_of (between 0 (0 + nat 2) scattered)) (1/100) = Inr False \<and>
   is_fixation_idt (columns_of (between 1 (1 + nat 2) scattered)) (1/100) = Inr False \<and>
   extract_fixations scattered 2 (1/100) (2/100) =
     Inr \<lparr>columns = [''start'', ''end'', ''x'', ''y'', ''z'',
                      ''origin_x'', ''origin_y'', ''origin_z''],
          rows = []\<rparr>"
proof -
  have w0: "is_fixation_idt (columns_of (between 0 (0 + nat 2) scattered)) (1/100)
      = Inr False"
    by code_simp
  have w1: "is_fixation_idt (columns_of (between 1 (1 + nat 2) scattered)) (1/100)
      = Inr False"
    by code_simp
  have none: "\<forall>a. a + nat 2 \<le> length scattered \<longrightarrow>
      is_fixation_idt (columns_of (between a (a + nat 2) scattered)) (1/100) = Inr False"
  proof (intro allI impI)
    fix a assume "a + nat 2 \<le> length scattered"
    then have "a = 0 \<or> a = 1"
      by (auto simp add: scattered_def)
    with w0 w1 show "is_fixation_idt (columns_of (between a (a + nat 2) scattered)) (1/100)
        = Inr False"
      by blast
  qed
  from no_start_no_record [OF none, of "2/100"] show ?thesis
    using w0 w1 by blast
qed

subsection \<open>The end of the input\<close>

text \<open>
  C4. The rows that \<open>extract_fixations\<close> returns are exactly the records saved inside the
  loop: there are as many as iterations that end a fixation, and each one summarises a
  range of rows that is followed, inside the input, by the row on which the dispersion
  test against \<open>max_fixation_size\<close> failed. So a queue or a fixation that is still open
  when the input ends gives no row. For \<open>min_points_per_fixation \<ge> 1\<close> it does return.
\<close>

theorem records_only_from_failed_tests:
  "(\<forall>df. extract_fixations data n lo hi = Inr df \<longrightarrow>
      length (rows df) = length (filter (ends_fixation n lo hi data) [0..<length data]) \<and>
      (\<exists>ws. rows df = map (\<lambda>(a, b). window_row (between a b data)) ws \<and>
         (\<forall>(a, b)\<in>set ws. a < b \<and> b < length data \<and>
            is_fixation_idt (columns_of (between a (Suc b) data)) hi = Inr False))) \<and>
   (1 \<le> n \<longrightarrow> (\<exists>df. extract_fixations data n lo hi = Inr df))"
proof (intro conjI allI impI)
  assume "1 \<le> n"
  then show "\<exists>df. extract_fixations data n lo hi = Inr df"
    using final_inv [of n lo hi data] by blast
next
  fix df assume df: "extract_fixations data n lo hi = Inr df"
  from final_shape [OF df] obtain st a ws
    where st: "state_after n lo hi data (length data) = Inr st"
      and rdf: "rows df = fixations st"
      and inv: "seg_shape hi data (length data) st a ws"
    by blast
  from rows_count_any [OF order_refl st] rdf
  show "length (rows df) = length (filter (ends_fixation n lo hi data) [0..<length data])"
    by simp
  from inv have "fixations st = map (\<lambda>(x, y). window_row (between x y data)) ws"
    and "\<forall>(x, y)\<in>set ws. x < y \<and> y < length data \<and>
        is_fixation_idt (columns_of (between x (Suc y) data)) hi = Inr False"
    by (auto simp add: seg_shape_def)
  then show "\<exists>ws. rows df = map (\<lambda>(a, b). window_row (between a b data)) ws \<and>
         (\<forall>(a, b)\<in>set ws. a < b \<and> b < length data \<and>
            is_fixation_idt (columns_of (between a (Suc b) data)) hi = Inr False)"
    using rdf by auto
qed

theorem records_only_from_failed_tests_witness:
  "(1::int) \<le> 2 \<and>
   (\<exists>df ws. extract_fixations trailing_open 2 (1/100) (2/100) = Inr df \<and>
      rows df = [[1, 2, 0, 0, 0, 1, 2, 3]] \<and>
      length (rows df)
        = length (filter (ends_fixation 2 (1/100) (2/100) trailing_open)
            [0..<length trailing_open]) \<and>
      rows df = map (\<lambda>(a, b). window_row (between a b trailing_open)) ws \<and>
      (\<forall>(a, b)\<in>set ws. a < b \<and> b < length trailing_open \<and>
         is_fixation_idt (columns_of (between a (Suc b) trailing_open)) (2/100) = Inr False)) \<and>
   (case run_loop 2 (1/100) (2/100) init_state trailing_open of
      Inl e \<Rightarrow> False
    | Inr st \<Rightarrow> processing_fixation st \<and> timestamps (fixation st) = [3, 4, 5])"
proof -
  from records_only_from_failed_tests [of trailing_open 2 "1/100" "2/100"]
    trailing_open_result
  show ?thesis
    by auto
qed

end
